theory Spec2Isabelle
  imports Main "HOL-Library.Word"
begin

unbundle bit_operations_syntax

section \<open>The LC-3 virtual machine of \<open>src/lc3.c\<close>\<close>

text \<open>
  The emulator keeps its state in two global arrays, \<open>uint16_t memory[MEMORY_MAX]\<close>
  (65536 cells) and \<open>uint16_t reg[R_COUNT]\<close> (10 cells), and runs one
  fetch-decode-execute loop in \<open>main\<close>. Every value is a \<open>uint16_t\<close>: C promotes it to
  \<open>int\<close> for arithmetic and truncates it on the store, which is arithmetic modulo
  \<open>2 ^ 16\<close>, the arithmetic of \<open>16 word\<close>.
\<close>

subsection \<open>Data\<close>

type_synonym u16 = "16 word"

text \<open>Register indices, lines 18-30.\<close>

definition R_R0 :: u16 where "R_R0 = 0"
definition R_R7 :: u16 where "R_R7 = 7"
definition R_PC :: u16 where "R_PC = 8"
definition R_COND :: u16 where "R_COND = 9"
definition R_COUNT :: u16 where "R_COUNT = 10"

text \<open>Condition flags, lines 34-38: \<open>1 << 0\<close>, \<open>1 << 1\<close>, \<open>1 << 2\<close>.\<close>

definition FL_POS :: u16 where "FL_POS = push_bit 0 1"
definition FL_ZRO :: u16 where "FL_ZRO = push_bit 1 1"
definition FL_NEG :: u16 where "FL_NEG = push_bit 2 1"

text \<open>Opcodes, lines 41-58, numbered from 0 in the order of the enum.\<close>

definition OP_BR :: u16 where "OP_BR = 0"
definition OP_ADD :: u16 where "OP_ADD = 1"
definition OP_LD :: u16 where "OP_LD = 2"
definition OP_ST :: u16 where "OP_ST = 3"
definition OP_JSR :: u16 where "OP_JSR = 4"
definition OP_AND :: u16 where "OP_AND = 5"
definition OP_LDR :: u16 where "OP_LDR = 6"
definition OP_STR :: u16 where "OP_STR = 7"
definition OP_RTI :: u16 where "OP_RTI = 8"
definition OP_NOT :: u16 where "OP_NOT = 9"
definition OP_LDI :: u16 where "OP_LDI = 10"
definition OP_STI :: u16 where "OP_STI = 11"
definition OP_JMP :: u16 where "OP_JMP = 12"
definition OP_RES :: u16 where "OP_RES = 13"
definition OP_LEA :: u16 where "OP_LEA = 14"
definition OP_TRAP :: u16 where "OP_TRAP = 15"

text \<open>
  The machine: the two global arrays and the state of the external devices (keyboard and
  console) that the memory-read path and the trap routines talk to. \<open>memory\<close> is indexed
  by a \<open>uint16_t\<close> and has a cell for each of them. \<open>reg\<close> has \<open>R_COUNT\<close> cells; the code
  indexes it with the constants \<open>R_PC\<close>, \<open>R_COND\<close> and with 3-bit instruction fields
  only (lemma \<open>reg_field_in_range\<close> below), so no access leaves the array and a function
  from the index is a faithful picture of it.
\<close>

record 'd machine =
  memory :: "u16 \<Rightarrow> u16"
  reg :: "u16 \<Rightarrow> u16"
  dev :: 'd

subsection \<open>\<open>sign_extend\<close>, lines 60-65\<close>

text \<open>
  \<open>x\<close> is promoted to \<open>int\<close> (32 bits) for \<open>x >> (bit_count - 1)\<close>; \<open>0xFFFF\<close> is an \<open>int\<close>,
  so \<open>0xFFFF << bit_count\<close> is computed on 32 bits and the assignment \<open>x |= ...\<close>
  truncates to 16 bits. C leaves the shifts undefined for \<open>bit_count < 1\<close> and the left
  shift for \<open>bit_count > 15\<close> (it overflows \<open>int\<close>); the theorems below stay within
  \<open>1 \<le> bit_count \<le> 15\<close> wherever that branch is taken.
\<close>

definition sign_extend :: "u16 \<Rightarrow> nat \<Rightarrow> u16" where
  "sign_extend x bit_count =
     (if (drop_bit (bit_count - 1) x) AND 1 \<noteq> 0
      then x OR ucast (push_bit bit_count (0xFFFF :: 32 word))
      else x)"

subsection \<open>\<open>update_flags\<close>, lines 67-77\<close>

definition update_flags :: "u16 \<Rightarrow> 'd machine \<Rightarrow> 'd machine" where
  "update_flags r s =
     (if reg s r = 0 then s\<lparr>reg := (reg s)(R_COND := FL_ZRO)\<rparr>
      else if drop_bit 15 (reg s r) \<noteq> 0 then s\<lparr>reg := (reg s)(R_COND := FL_NEG)\<rparr>
      else s\<lparr>reg := (reg s)(R_COND := FL_POS)\<rparr>)"

subsection \<open>What \<open>main\<close> calls and \<open>src/lc3.c\<close> does not define\<close>

text \<open>
  \<open>main\<close> calls \<open>mem_read\<close> and \<open>read_image\<close>, and eleven of its \<open>case\<close> bodies are
  placeholders of the literate source (lines 148, 151, 154, 157, 160, 171, 174, 177, 180,
  183 and 186). None of them is in \<open>src/lc3.c\<close>, so the model takes them as parameters.

  Modelled from the spec: the type of \<open>mem_read\<close>. Section 3 describes a read as a
  look-up in the address space that, at the keyboard-status cell, polls the input device
  and may store into memory first; so a read maps an address, the memory and the device
  state to the value read and the new memory and device state, and leaves the registers
  alone.

  Modelled from the spec: the type of \<open>read_image\<close>. Section 6 describes the loader as
  storing the words of an image file at consecutive addresses; so loading a path either
  fails (\<open>None\<close>, the C function returning 0) or performs a list of stores \<open>(address,
  value)\<close> in order.

  \<open>absent_case\<close> stands for the placeholder bodies: given the instruction and the machine
  it returns the machine and the value of \<open>running\<close> after the body (the HALT trap of
  section 4.6 clears it).
\<close>

record 'd absent =
  mem_read :: "u16 \<Rightarrow> (u16 \<Rightarrow> u16) \<times> 'd \<Rightarrow> u16 \<times> (u16 \<Rightarrow> u16) \<times> 'd"
  read_image :: "string \<Rightarrow> (u16 \<times> u16) list option"
  absent_case :: "u16 \<Rightarrow> 'd machine \<Rightarrow> 'd machine \<times> bool"

subsection \<open>One iteration of the loop, lines 106-194\<close>

text \<open>
  Line 108, \<open>instr = mem_read(reg[R_PC]++)\<close>: the argument is the old PC, and the
  increment is complete before the call (C sequences the evaluation of the arguments
  before the call).
\<close>

definition fetch :: "'d absent \<Rightarrow> 'd machine \<Rightarrow> u16 \<times> 'd machine" where
  "fetch env s =
     (let pc = reg s R_PC;
          s1 = s\<lparr>reg := (reg s)(R_PC := pc + 1)\<rparr>;
          (instr, m, d) = mem_read env pc (memory s1, dev s1)
      in (instr, s1\<lparr>memory := m, dev := d\<rparr>))"

text \<open>Lines 113-129.\<close>

definition case_ADD :: "u16 \<Rightarrow> 'd machine \<Rightarrow> 'd machine" where
  "case_ADD instr s =
     (let r0 = drop_bit 9 instr AND 0x7;
          r1 = drop_bit 6 instr AND 0x7;
          imm_flag = drop_bit 5 instr AND 0x1
      in update_flags r0
           (if imm_flag \<noteq> 0
            then (let imm5 = sign_extend (instr AND 0x1F) 5
                  in s\<lparr>reg := (reg s)(r0 := reg s r1 + imm5)\<rparr>)
            else (let r2 = instr AND 0x7
                  in s\<lparr>reg := (reg s)(r0 := reg s r1 + reg s r2)\<rparr>)))"

text \<open>Lines 130-146.\<close>

definition case_AND :: "u16 \<Rightarrow> 'd machine \<Rightarrow> 'd machine" where
  "case_AND instr s =
     (let r0 = drop_bit 9 instr AND 0x7;
          r1 = drop_bit 6 instr AND 0x7;
          imm_flag = drop_bit 5 instr AND 0x1
      in update_flags r0
           (if imm_flag \<noteq> 0
            then (let imm5 = sign_extend (instr AND 0x1F) 5
                  in s\<lparr>reg := (reg s)(r0 := reg s r1 AND imm5)\<rparr>)
            else (let r2 = instr AND 0x7
                  in s\<lparr>reg := (reg s)(r0 := reg s r1 AND reg s r2)\<rparr>)))"

text \<open>
  Lines 162-169. The inner \<open>mem_read\<close> runs first, the outer one on the memory and device
  the inner one left, and the store into \<open>reg[r0]\<close> comes last.
\<close>

definition case_LDI :: "'d absent \<Rightarrow> u16 \<Rightarrow> 'd machine \<Rightarrow> 'd machine" where
  "case_LDI env instr s =
     (let r0 = drop_bit 9 instr AND 0x7;
          pc_offset = sign_extend (instr AND 0x1FF) 9;
          (a, m1, d1) = mem_read env (reg s R_PC + pc_offset) (memory s, dev s);
          (v, m2, d2) = mem_read env a (m1, d1)
      in update_flags r0 (s\<lparr>memory := m2, reg := (reg s)(r0 := v), dev := d2\<rparr>))"

text \<open>
  What one pass through the \<open>switch\<close> leaves: the loop goes on (\<open>running\<close> still 1), the
  loop ends (\<open>running\<close> cleared), or \<open>abort()\<close> has killed the process.
\<close>

datatype 'd outcome = Running "'d machine" | Halted "'d machine" | Aborted "'d machine"

definition placeholder :: "'d absent \<Rightarrow> u16 \<Rightarrow> 'd machine \<Rightarrow> 'd outcome" where
  "placeholder env instr s =
     (case absent_case env instr s of (s', running) \<Rightarrow> if running then Running s' else Halted s')"

text \<open>The \<open>switch\<close> of lines 111-193, its cases in the order of the source.\<close>

definition execute :: "'d absent \<Rightarrow> u16 \<Rightarrow> 'd machine \<Rightarrow> 'd outcome" where
  "execute env instr s =
     (let op = drop_bit 12 instr in
      if op = OP_ADD then Running (case_ADD instr s)
      else if op = OP_AND then Running (case_AND instr s)
      else if op = OP_NOT \<or> op = OP_BR \<or> op = OP_JMP \<or> op = OP_JSR \<or> op = OP_LD
        then placeholder env instr s
      else if op = OP_LDI then Running (case_LDI env instr s)
      else if op = OP_LDR \<or> op = OP_LEA \<or> op = OP_ST \<or> op = OP_STI \<or> op = OP_STR
              \<or> op = OP_TRAP
        then placeholder env instr s
      else Aborted s)"

definition step :: "'d absent \<Rightarrow> 'd machine \<Rightarrow> 'd outcome" where
  "step env s = (case fetch env s of (instr, s1) \<Rightarrow> execute env instr s1)"

subsection \<open>The process: \<open>main\<close>, lines 79-196\<close>

text \<open>
  The calls \<open>main\<close> makes to the outside, in the order it makes them. \<open>Fetch pc\<close> is the
  \<open>mem_read\<close> of line 108 at address \<open>pc\<close>.
\<close>

datatype event =
    Printf string
  | Exit int
  | Read_image string
  | Signal_SIGINT
  | Disable_input_buffering
  | Fetch u16
  | Abort
  | Restore_input_buffering

text \<open>
  The \<open>while (running)\<close> loop. It need not end, so it runs on fuel: \<open>Running s\<close> as the
  result says that the loop is still running in state \<open>s\<close> when the fuel is spent.
\<close>

fun loop :: "'d absent \<Rightarrow> nat \<Rightarrow> 'd machine \<Rightarrow> event list \<times> 'd outcome" where
  "loop env 0 s = ([], Running s)"
| "loop env (Suc n) s =
     (case step env s of
        Running s' \<Rightarrow> (case loop env n s' of (es, r) \<Rightarrow> (Fetch (reg s R_PC) # es, r))
      | Halted s' \<Rightarrow> ([Fetch (reg s R_PC)], Halted s')
      | Aborted s' \<Rightarrow> ([Fetch (reg s R_PC), Abort], Aborted s'))"

text \<open>The stores of one image, applied in order.\<close>

definition store_all :: "(u16 \<times> u16) list \<Rightarrow> (u16 \<Rightarrow> u16) \<Rightarrow> (u16 \<Rightarrow> u16)" where
  "store_all stores m = foldl (\<lambda>m' (a, v). m'(a := v)) m stores"

text \<open>Lines 86-91: the images in order; the first that fails ends the process.\<close>

fun load_images ::
  "'d absent \<Rightarrow> string list \<Rightarrow> (u16 \<Rightarrow> u16) \<Rightarrow> event list \<times> (u16 \<Rightarrow> u16) option" where
  "load_images env [] m = ([], Some m)"
| "load_images env (p # ps) m =
     (case read_image env p of
        None \<Rightarrow>
          ([Read_image p, Printf (''failed to load image: '' @ p @ [CHR 0x0A]), Exit 1], None)
      | Some stores \<Rightarrow>
          (case load_images env ps (store_all stores m) of
             (es, r) \<Rightarrow> (Read_image p # es, r)))"

text \<open>
  Lines 15 and 31: \<open>memory\<close> and \<open>reg\<close> are objects of static storage without an
  initialiser, which C sets to zero before \<open>main\<close> starts.
\<close>

definition static_storage :: "'d \<Rightarrow> 'd machine" where
  "static_storage d = \<lparr>memory = (\<lambda>a. 0), reg = (\<lambda>r. 0), dev = d\<rparr>"

definition PC_START :: u16 where "PC_START = 0x3000"

text \<open>
  Lines 79-103, \<open>main\<close> up to the loop: the exit code of an early \<open>exit\<close>, or the machine
  as the loop finds it.
\<close>

definition boot :: "'d absent \<Rightarrow> string list \<Rightarrow> 'd \<Rightarrow> event list \<times> (int + 'd machine)" where
  "boot env argv d =
     (let argc = length argv; s = static_storage d in
      if argc < 2 then ([Printf (''lc3 [image-file1] ...'' @ [CHR 0x0A]), Exit 2], Inl 2)
      else
        (case load_images env (drop 1 argv) (memory s) of
           (es, None) \<Rightarrow> (es, Inl 1)
         | (es, Some m) \<Rightarrow>
             (let s1 = s\<lparr>memory := m\<rparr>;
                  s2 = s1\<lparr>reg := (reg s1)(R_COND := FL_ZRO)\<rparr>;
                  s3 = s2\<lparr>reg := (reg s2)(R_PC := PC_START)\<rparr>
              in (es @ [Signal_SIGINT, Disable_input_buffering], Inr s3))))"

text \<open>
  How the process ends: an exit code (\<open>exit\<close>, or \<open>main\<close> reaching its closing brace, which
  returns 0), the \<open>abort()\<close> of line 191, or not within the fuel.
\<close>

datatype status = Exited int | Killed_by_abort | Still_running

definition main :: "'d absent \<Rightarrow> nat \<Rightarrow> string list \<Rightarrow> 'd \<Rightarrow> status \<times> event list" where
  "main env fuel argv d =
     (case boot env argv d of
        (es, Inl code) \<Rightarrow> (Exited code, es)
      | (es, Inr s) \<Rightarrow>
          (case loop env fuel s of
             (ls, Running s') \<Rightarrow> (Still_running, es @ ls)
           | (ls, Halted s') \<Rightarrow> (Exited 0, es @ ls @ [Restore_input_buffering])
           | (ls, Aborted s') \<Rightarrow> (Killed_by_abort, es @ ls)))"

subsection \<open>Notions of the specification\<close>

text \<open>
  The low \<open>w\<close> bits of \<open>v\<close> read as a \<open>w\<close>-bit two's-complement number: the unsigned
  value \<open>u\<close> of those bits when bit \<open>w - 1\<close> is clear, and \<open>u - 2 ^ w\<close> when it is set.
\<close>

definition signed_of_low_bits :: "nat \<Rightarrow> u16 \<Rightarrow> int" where
  "signed_of_low_bits w v =
     (let u = uint v mod 2 ^ w in if u < 2 ^ (w - 1) then u else u - 2 ^ w)"

text \<open>Flag \<open>f\<close> is set in the condition register.\<close>

definition flag_holds :: "u16 \<Rightarrow> 'd machine \<Rightarrow> bool" where
  "flag_holds f s = (reg s R_COND AND f \<noteq> 0)"

text \<open>The addresses the loader stores to, over the images \<open>argv[1]\<close>, \<open>argv[2]\<close>, ...\<close>

definition written_by_loader :: "'d absent \<Rightarrow> string list \<Rightarrow> u16 set" where
  "written_by_loader env argv =
     (\<Union>p \<in> set (drop 1 argv). case read_image env p of None \<Rightarrow> {} | Some stores \<Rightarrow> fst ` set stores)"

subsection \<open>An instance of the absent parts, for evaluation\<close>

text \<open>
  A memory read without devices, a loader that knows three images (\<open>ADD R0, R0, #5\<close>
  followed by the HALT trap; the reserved opcode; an \<open>LDI\<close> with its pointer and data)
  and placeholder bodies that do nothing except that a TRAP clears \<open>running\<close>.
\<close>

definition plain_read :: "u16 \<Rightarrow> (u16 \<Rightarrow> u16) \<times> unit \<Rightarrow> u16 \<times> (u16 \<Rightarrow> u16) \<times> unit" where
  "plain_read a md = (fst md a, md)"

definition test_images :: "string \<Rightarrow> (u16 \<times> u16) list option" where
  "test_images p =
     (if p = ''add.obj'' then Some [(0x3000, 0x1025), (0x3001, 0xF025)]
      else if p = ''res.obj'' then Some [(0x3000, 0xD000)]
      else if p = ''ldi.obj'' then Some [(0x3000, 0xA402), (0x3003, 0x4000), (0x4000, 0x8001)]
      else None)"

definition test_env :: "unit absent" where
  "test_env =
     \<lparr>mem_read = plain_read, read_image = test_images,
      absent_case = (\<lambda>instr s. (s, drop_bit 12 instr \<noteq> OP_TRAP))\<rparr>"

text \<open>States for evaluation: registers R1 = 7 and R2 = -3; \<open>ADD R1, R1, R1\<close> at the PC;
  an \<open>LDI R2, #2\<close> with its pointer and its data; the reserved opcode at the PC.\<close>

definition test_state :: "unit machine" where
  "test_state = \<lparr>memory = (\<lambda>a. 0), reg = (\<lambda>r. 0)(1 := 7, 2 := 0xFFFD), dev = ()\<rparr>"

definition alias_state :: "unit machine" where
  "alias_state =
     \<lparr>memory = (\<lambda>a. 0)(0x3000 := 0x1241), reg = (\<lambda>r. 0)(1 := 7, R_PC := 0x3000), dev = ()\<rparr>"

definition ldi_state :: "unit machine" where
  "ldi_state =
     \<lparr>memory = (\<lambda>a. 0)(0x3000 := 0xA402, 0x3003 := 0x4000, 0x4000 := 0x8001),
      reg = (\<lambda>r. 0)(R_PC := 0x3000), dev = ()\<rparr>"

definition res_state :: "unit machine" where
  "res_state =
     \<lparr>memory = (\<lambda>a. 0)(0x3000 := 0xD000), reg = (\<lambda>r. 0)(3 := 5, R_PC := 0x3000), dev = ()\<rparr>"

section \<open>Lemmas\<close>

lemmas reg_names = R_R0_def R_R7_def R_PC_def R_COND_def R_COUNT_def
lemmas flag_names = FL_POS_def FL_ZRO_def FL_NEG_def
lemmas op_names = OP_BR_def OP_ADD_def OP_LD_def OP_ST_def OP_JSR_def OP_AND_def
  OP_LDR_def OP_STR_def OP_RTI_def OP_NOT_def OP_LDI_def OP_STI_def OP_JMP_def
  OP_RES_def OP_LEA_def OP_TRAP_def

subsection \<open>Sign extension\<close>

lemma ffff_mask: "(0xFFFF :: 32 word) = mask 16"
  by (simp add: mask_eq_exp_minus_1)

lemma ucast_ffff_shift:
  "n \<le> 16 \<Longrightarrow> (ucast (push_bit n (0xFFFF :: 32 word)) :: u16) = NOT (mask n)"
  unfolding ffff_mask
  by (rule bit_word_eqI) (auto simp add: bit_simps)

lemma low_bit_test: "(drop_bit n (x::u16) AND 1 \<noteq> 0) = bit x n"
  by (simp add: bit_iff_and_drop_bit_eq_1 and_one_eq mod_2_eq_odd bit_iff_odd_drop_bit)

lemma top_of_width: "w - Suc 0 \<le> n \<Longrightarrow> n < w \<Longrightarrow> n = w - Suc 0"
  by arith

lemma sign_extend_masked:
  assumes "1 \<le> w" and "w \<le> 16"
  shows "sign_extend (v AND mask w) w = signed_take_bit (w - 1) v"
  unfolding sign_extend_def low_bit_test
  apply (rule bit_word_eqI)
  using assms
  apply (auto simp add: ucast_ffff_shift bit_simps min_def split: if_splits dest: top_of_width)
  done

lemma signed_take_bit_arith:
  assumes "1 \<le> w"
  shows "signed_take_bit (w - 1) (uint (v::u16)) = signed_of_low_bits w v"
proof -
  obtain n where n: "w = Suc n" using assms by (cases w) auto
  define k where "k = uint v"
  have a: "k mod 2 ^ Suc n = 2 ^ n * of_bool (bit k n) + k mod 2 ^ n"
    using take_bit_Suc_from_most [of n k] by (simp only: take_bit_eq_mod)
  have b: "k mod 2 ^ n < 2 ^ n" "0 \<le> k mod 2 ^ n" by simp_all
  have c: "signed_take_bit n k = k mod 2 ^ Suc n - 2 ^ Suc n * of_bool (bit k n)"
    by (simp only: signed_take_bit_eq_take_bit_minus take_bit_eq_mod)
  show ?thesis
    unfolding signed_of_low_bits_def Let_def n k_def[symmetric]
    using a b c
    by (cases "bit k n"; simp; linarith)
qed

lemma sint_signed_take_bit:
  "n < 16 \<Longrightarrow> sint (signed_take_bit n (v::u16)) = signed_take_bit n (uint v)"
  by (rule bit_eqI) (auto simp add: bit_simps min_def bit_sint_iff bit_uint_iff split: if_splits)

lemma sint_eq_iff: "sint (a::u16) = sint b \<longleftrightarrow> a = b"
  using word_eq_iff_signed [of a b, where ?'a = int] by auto

subsection \<open>Registers and flags\<close>

lemma field3_le: "(x::u16) AND 7 \<le> 7"
  by (rule word_and_le1)

lemma field3_not_special: "(x::u16) AND 7 \<noteq> R_PC" "(x::u16) AND 7 \<noteq> R_COND"
  using field3_le [of x] by (auto simp add: reg_names)

lemma reg_field_in_range: "(x::u16) AND 7 < R_COUNT"
proof -
  have "(7::u16) < 10" by simp
  with field3_le [of x] show ?thesis unfolding R_COUNT_def by (rule order_le_less_trans)
qed

lemma top_bit_test: "(drop_bit 15 (v::u16) \<noteq> 0) = bit v 15"
  apply (auto simp add: bit_eq_iff bit_simps)
  subgoal for n using bit_imp_le_length [of v "15 + n"] by (cases n) auto
  subgoal by (rule exI [of _ 0]) simp
  done

lemma sint_neg_iff: "sint (v::u16) < 0 \<longleftrightarrow> bit v 15"
  using bit_last_iff [of v] by simp

lemma sint_zero_iff: "sint (v::u16) = 0 \<longleftrightarrow> v = 0"
  by (rule signed_eq_0_iff)


lemma update_flags_frame:
  "memory (update_flags r s) = memory s"
  "dev (update_flags r s) = dev s"
  "r' \<noteq> R_COND \<Longrightarrow> reg (update_flags r s) r' = reg s r'"
  by (simp_all add: update_flags_def)

lemma update_flags_cond:
  "reg (update_flags r s) R_COND =
     (if sint (reg s r) = 0 then FL_ZRO else if sint (reg s r) < 0 then FL_NEG else FL_POS)"
  by (simp add: update_flags_def top_bit_test sint_neg_iff sint_zero_iff)

lemma flag_holds_iff:
  assumes "reg s R_COND \<in> {FL_NEG, FL_ZRO, FL_POS}" and "f \<in> {FL_NEG, FL_ZRO, FL_POS}"
  shows "flag_holds f s \<longleftrightarrow> f = reg s R_COND"
  using assms unfolding flag_holds_def flag_names by auto

lemma exactly_one_flag:
  assumes "reg s R_COND \<in> {FL_NEG, FL_ZRO, FL_POS}"
  shows "\<exists>!f. f \<in> {FL_NEG, FL_ZRO, FL_POS} \<and> flag_holds f s"
proof (rule ex1I [of _ "reg s R_COND"])
  show "reg s R_COND \<in> {FL_NEG, FL_ZRO, FL_POS} \<and> flag_holds (reg s R_COND) s"
    using assms flag_holds_iff [OF assms assms] by simp
next
  fix f assume "f \<in> {FL_NEG, FL_ZRO, FL_POS} \<and> flag_holds f s"
  then show "f = reg s R_COND" using flag_holds_iff [OF assms, of f] by simp
qed

lemma flags_distinct: "FL_NEG \<noteq> FL_ZRO" "FL_NEG \<noteq> FL_POS" "FL_ZRO \<noteq> FL_POS"
  by (simp_all add: flag_names)

lemma update_flags_exactly_one:
  assumes "r \<noteq> R_COND"
  shows "reg (update_flags r s) R_COND \<in> {FL_NEG, FL_ZRO, FL_POS} \<and>
     (\<exists>!f. f \<in> {FL_NEG, FL_ZRO, FL_POS} \<and> flag_holds f (update_flags r s)) \<and>
     (flag_holds FL_ZRO (update_flags r s) \<longleftrightarrow> sint (reg (update_flags r s) r) = 0) \<and>
     (flag_holds FL_NEG (update_flags r s) \<longleftrightarrow> sint (reg (update_flags r s) r) < 0) \<and>
     (flag_holds FL_POS (update_flags r s) \<longleftrightarrow> 0 < sint (reg (update_flags r s) r))"
proof -
  let ?s = "update_flags r s"
  have v: "reg ?s r = reg s r" using assms by (simp add: update_flags_frame)
  have c: "reg ?s R_COND \<in> {FL_NEG, FL_ZRO, FL_POS}"
    by (simp add: update_flags_cond)
  have z: "flag_holds FL_ZRO ?s \<longleftrightarrow> sint (reg s r) = 0"
    using flags_distinct by (simp add: flag_holds_iff [OF c] update_flags_cond)
  have n: "flag_holds FL_NEG ?s \<longleftrightarrow> sint (reg s r) < 0"
    using flags_distinct by (simp add: flag_holds_iff [OF c] update_flags_cond)
  have p: "flag_holds FL_POS ?s \<longleftrightarrow> 0 < sint (reg s r)"
    using flags_distinct by (auto simp add: flag_holds_iff [OF c] update_flags_cond)
  show ?thesis
    unfolding v using c exactly_one_flag [OF c] z n p by blast
qed

subsection \<open>The cases of the switch\<close>

lemma fetch_props:
  assumes "fetch env s = (instr, s1)"
  shows "reg s1 = (reg s)(R_PC := reg s R_PC + 1)"
    and "mem_read env (reg s R_PC) (memory s, dev s) = (instr, memory s1, dev s1)"
  using assms by (auto simp add: fetch_def Let_def split: prod.splits)

lemma case_ADD_eq:
  "case_ADD instr s =
     update_flags (drop_bit 9 instr AND 7)
       (s\<lparr>reg := (reg s)(drop_bit 9 instr AND 7 :=
          reg s (drop_bit 6 instr AND 7) +
          (if bit instr 5 then sign_extend (instr AND 0x1F) 5 else reg s (instr AND 7)))\<rparr>)"
  by (simp add: case_ADD_def Let_def low_bit_test)

lemma case_AND_eq:
  "case_AND instr s =
     update_flags (drop_bit 9 instr AND 7)
       (s\<lparr>reg := (reg s)(drop_bit 9 instr AND 7 :=
          reg s (drop_bit 6 instr AND 7) AND
          (if bit instr 5 then sign_extend (instr AND 0x1F) 5 else reg s (instr AND 7)))\<rparr>)"
  by (simp add: case_AND_def Let_def low_bit_test)

lemma execute_ADD: "drop_bit 12 instr = OP_ADD \<Longrightarrow> execute env instr s = Running (case_ADD instr s)"
  by (simp add: execute_def)

lemma execute_AND: "drop_bit 12 instr = OP_AND \<Longrightarrow> execute env instr s = Running (case_AND instr s)"
  by (simp add: execute_def op_names)

lemma execute_LDI: "drop_bit 12 instr = OP_LDI \<Longrightarrow> execute env instr s = Running (case_LDI env instr s)"
  by (simp add: execute_def op_names)

lemma execute_reserved:
  "drop_bit 12 instr = OP_RTI \<or> drop_bit 12 instr = OP_RES \<Longrightarrow> execute env instr s = Aborted s"
  by (auto simp add: execute_def op_names)

lemma case_LDI_eq:
  assumes "mem_read env (reg s R_PC + sign_extend (instr AND 0x1FF) 9) (memory s, dev s) = (a, m1, d1)"
      and "mem_read env a (m1, d1) = (v, m2, d2)"
  shows "case_LDI env instr s =
     update_flags (drop_bit 9 instr AND 7)
       (s\<lparr>memory := m2, reg := (reg s)(drop_bit 9 instr AND 7 := v), dev := d2\<rparr>)"
  using assms by (simp add: case_LDI_def Let_def)

lemma case_LDI_shape: "\<exists>t. case_LDI env instr s = update_flags (drop_bit 9 instr AND 7) t"
proof -
  obtain a m1 d1 where 1:
    "mem_read env (reg s R_PC + sign_extend (instr AND 0x1FF) 9) (memory s, dev s) = (a, m1, d1)"
    by (rule prod_cases3)
  obtain v m2 d2 where 2: "mem_read env a (m1, d1) = (v, m2, d2)"
    by (rule prod_cases3)
  show ?thesis using case_LDI_eq [OF 1 2] by blast
qed

lemmas eval_simps = execute_def case_ADD_def case_AND_def case_LDI_def update_flags_def
  sign_extend_def fetch_def step_def placeholder_def Let_def reg_names flag_names op_names
  test_env_def plain_read_def flag_holds_def

subsection \<open>Loading and start-up\<close>

lemma store_all_other: "a \<notin> fst ` set stores \<Longrightarrow> store_all stores m a = m a"
  unfolding store_all_def
  by (induction stores arbitrary: m) (auto split: prod.splits)

lemma load_images_memory:
  assumes "load_images env ps m = (es, Some m')"
      and "\<forall>p\<in>set ps. \<forall>stores. read_image env p = Some stores \<longrightarrow> a \<notin> fst ` set stores"
  shows "m' a = m a"
  using assms
proof (induction ps arbitrary: m es)
  case Nil
  then show ?case by simp
next
  case (Cons p ps)
  from Cons.prems(1) obtain stores where st: "read_image env p = Some stores"
    by (cases "read_image env p") auto
  obtain es' r where l: "load_images env ps (store_all stores m) = (es', r)"
    by (cases "load_images env ps (store_all stores m)")
  with Cons.prems(1) st have r: "r = Some m'" by simp
  have "m' a = store_all stores m a"
    using Cons.IH [OF l [unfolded r]] Cons.prems(2) by simp
  also have "\<dots> = m a"
    using Cons.prems(2) st by (simp add: store_all_other)
  finally show ?case .
qed

lemma load_images_fails_iff:
  "load_images env ps m = (es, r) \<Longrightarrow> (r = None) = (\<exists>p\<in>set ps. read_image env p = None)"
  by (induction ps arbitrary: m es r) (auto split: option.splits prod.splits)

lemma load_images_events:
  "load_images env ps m = (es, r) \<Longrightarrow> e \<in> set es \<Longrightarrow>
     (\<exists>p. e = Read_image p) \<or> (\<exists>t. e = Printf t) \<or> e = Exit 1"
  by (induction ps arbitrary: m es r) (auto split: option.splits prod.splits)

lemma load_images_no_fetch:
  assumes "load_images env ps m = (es, r)"
  shows "Fetch pc \<notin> set es" and "Disable_input_buffering \<notin> set es"
  using load_images_events [OF assms, of "Fetch pc"]
    load_images_events [OF assms, of Disable_input_buffering] by auto

lemma boot_cases:
  "length argv < 2 \<Longrightarrow>
     boot env argv d = ([Printf (''lc3 [image-file1] ...'' @ [CHR 0x0A]), Exit 2], Inl 2)"
  "\<not> length argv < 2 \<Longrightarrow> load_images env (drop 1 argv) (\<lambda>a. 0) = (es, None) \<Longrightarrow>
     boot env argv d = (es, Inl 1)"
  "\<not> length argv < 2 \<Longrightarrow> load_images env (drop 1 argv) (\<lambda>a. 0) = (es, Some m) \<Longrightarrow>
     boot env argv d = (es @ [Signal_SIGINT, Disable_input_buffering],
       Inr \<lparr>memory = m, reg = (\<lambda>r. 0)(R_COND := FL_ZRO, R_PC := PC_START), dev = d\<rparr>)"
  by (simp_all add: boot_def Let_def static_storage_def)

lemmas main_simps = main_def boot_def static_storage_def store_all_def test_images_def
  PC_START_def

section \<open>The claims\<close>

text \<open>
  C1. For every 16-bit value \<open>v\<close> and every width \<open>w\<close> among 5, 6, 9 and 11,
  \<open>sign_extend (v & mask w, w)\<close> read as a signed 16-bit number is the low \<open>w\<close> bits of
  \<open>v\<close> read as a signed \<open>w\<close>-bit number; bit by bit, the result keeps the low \<open>w\<close> bits
  of \<open>v\<close> and repeats bit \<open>w - 1\<close> in every higher position.
\<close>

theorem sign_extend_exact:
  assumes "w \<in> {5, 6, 9, 11}"
  shows "sint (sign_extend (v AND mask w) w) = signed_of_low_bits w v \<and>
         (\<forall>i<16. bit (sign_extend (v AND mask w) w) i = bit v (if i < w then i else w - 1))"
proof -
  from assms have w: "1 \<le> w" "w \<le> 16" "w - 1 < 16" by auto
  have e: "sign_extend (v AND mask w) w = signed_take_bit (w - 1) v"
    using w by (simp add: sign_extend_masked)
  have "sint (signed_take_bit (w - 1) v) = signed_of_low_bits w v"
    using w by (simp only: sint_signed_take_bit signed_take_bit_arith)
  moreover have "\<forall>i<16. bit (signed_take_bit (w - 1) v) i = bit v (if i < w then i else w - 1)"
    using w by (auto simp add: bit_simps min_def dest: top_of_width)
  ultimately show ?thesis by (simp only: e)
qed

theorem sign_extend_exact_witness:
  "(5::nat) \<in> {5, 6, 9, 11} \<and> sint (sign_extend (0xABDD AND mask 5) 5) = - 3 \<and>
   bit (sign_extend (0xABDD AND mask 5) 5) 15"
  using sign_extend_exact [of 5 "0xABDD"] by (simp add: signed_of_low_bits_def)

text \<open>
  C9. \<open>sign_extend\<close> does not mask its input. For every 16-bit \<open>x\<close> and every width \<open>w\<close>
  (from 1 to 16, the positions a 16-bit value has) with bit \<open>w - 1\<close> of \<open>x\<close> clear, the
  result is \<open>x\<close> itself, whatever bits \<open>x\<close> has above position \<open>w - 1\<close>; so the result
  is then the sign extension of the low \<open>w\<close> bits of \<open>x\<close> exactly when \<open>x\<close> occupies
  the low \<open>w\<close> bits only.
\<close>

theorem sign_extend_no_mask:
  assumes "1 \<le> w" and "w \<le> 16" and "\<not> bit x (w - 1)"
  shows "sign_extend x w = x \<and>
         (sint (sign_extend x w) = signed_of_low_bits w x \<longleftrightarrow> x AND mask w = x)"
proof -
  have e: "sign_extend x w = x"
    using assms by (simp add: sign_extend_def low_bit_test)
  have "signed_of_low_bits w x = sint (signed_take_bit (w - 1) x)"
    using assms signed_take_bit_arith [of w x] sint_signed_take_bit [of "w - 1" x] by simp
  then have "sint x = signed_of_low_bits w x \<longleftrightarrow> x = signed_take_bit (w - 1) x"
    by (simp add: sint_eq_iff)
  also have "signed_take_bit (w - 1) x = take_bit (w - 1) x"
    using assms by (simp add: signed_take_bit_eq_if_positive)
  also have "take_bit (w - 1) x = take_bit w x"
    using assms by (auto simp add: bit_eq_iff bit_simps) (metis top_of_width not_less)
  finally show ?thesis
    by (auto simp add: e take_bit_eq_mask)
qed

theorem sign_extend_no_mask_witness:
  "(1::nat) \<le> 5 \<and> (5::nat) \<le> 16 \<and> \<not> bit (0x123 :: u16) (5 - 1) \<and>
   sign_extend 0x123 5 = 0x123 \<and> (0x123 :: u16) AND mask 5 \<noteq> 0x123 \<and>
   sint (sign_extend 0x123 5) \<noteq> signed_of_low_bits 5 0x123"
proof -
  have h: "\<not> bit (0x123 :: u16) (5 - 1)" by simp
  have m: "(0x123 :: u16) AND mask 5 \<noteq> 0x123" by (simp add: mask_eq_exp_minus_1)
  show ?thesis
    using sign_extend_no_mask [of 5 "0x123", OF _ _ h] h m
    by (simp add: signed_of_low_bits_def)
qed

text \<open>
  C2. After every instruction that updates the flags (\<open>ADD\<close>, \<open>AND\<close> and \<open>LDI\<close>, the
  three cases that call \<open>update_flags\<close>) the condition register holds one of
  \<open>FL_NEG\<close>, \<open>FL_ZRO\<close>, \<open>FL_POS\<close>, exactly one of the three flags is set, and it is
  the one that the new value of the destination register, read as a signed 16-bit
  number, selects: zero gives \<open>FL_ZRO\<close>, negative (bit 15 set) \<open>FL_NEG\<close>, positive
  \<open>FL_POS\<close>.
\<close>

theorem flags_after_update:
  assumes "drop_bit 12 instr = OP_ADD \<or> drop_bit 12 instr = OP_AND \<or> drop_bit 12 instr = OP_LDI"
  shows "\<exists>s'. execute env instr s = Running s' \<and>
     reg s' R_COND \<in> {FL_NEG, FL_ZRO, FL_POS} \<and>
     (\<exists>!f. f \<in> {FL_NEG, FL_ZRO, FL_POS} \<and> flag_holds f s') \<and>
     (flag_holds FL_ZRO s' \<longleftrightarrow> sint (reg s' (drop_bit 9 instr AND 7)) = 0) \<and>
     (flag_holds FL_NEG s' \<longleftrightarrow> sint (reg s' (drop_bit 9 instr AND 7)) < 0) \<and>
     (flag_holds FL_POS s' \<longleftrightarrow> 0 < sint (reg s' (drop_bit 9 instr AND 7)))"
proof -
  let ?r = "drop_bit 9 instr AND 7"
  have r: "?r \<noteq> R_COND" by (rule field3_not_special)
  obtain t where "execute env instr s = Running (update_flags ?r t)"
    using assms case_LDI_shape [of env instr s]
    by (auto simp add: execute_ADD execute_AND execute_LDI case_ADD_eq case_AND_eq)
  then show ?thesis
    using update_flags_exactly_one [OF r, of t] by simp
qed

theorem flags_after_update_witness:
  "(drop_bit 12 (0x107D::u16) = OP_ADD \<or> drop_bit 12 (0x107D::u16) = OP_AND \<or>
    drop_bit 12 (0x107D::u16) = OP_LDI) \<and>
   (\<exists>s'. execute test_env 0x107D test_state = Running s' \<and> reg s' 0 = 4 \<and>
     flag_holds FL_POS s' \<and> \<not> flag_holds FL_ZRO s' \<and> \<not> flag_holds FL_NEG s')"
  using flags_after_update [of "0x107D" test_env test_state]
  by (simp add: eval_simps test_state_def)

text \<open>
  C3. In every machine state, an \<open>ADD\<close> (or \<open>AND\<close>) in immediate mode with the 5-bit
  immediate \<open>k\<close> leaves the same machine, so the same destination register and the same
  flags, as the \<open>ADD\<close> (or \<open>AND\<close>) in register mode with the same destination and
  first source whose second source register holds \<open>sign_extend (k, 5)\<close>.
\<close>

theorem immediate_as_register:
  assumes "drop_bit 12 i1 = OP_ADD \<and> drop_bit 12 i2 = OP_ADD \<or>
           drop_bit 12 i1 = OP_AND \<and> drop_bit 12 i2 = OP_AND"
      and "drop_bit 9 i1 AND 7 = drop_bit 9 i2 AND 7"
      and "drop_bit 6 i1 AND 7 = drop_bit 6 i2 AND 7"
      and "bit i1 5" and "\<not> bit i2 5"
      and "reg s (i2 AND 7) = sign_extend (i1 AND 0x1F) 5"
  shows "execute env i1 s = execute env i2 s \<and> (\<exists>s'. execute env i1 s = Running s')"
  using assms
  by (auto simp add: execute_ADD execute_AND case_ADD_eq case_AND_eq)

theorem immediate_as_register_witness:
  "drop_bit 12 (0x107D :: u16) = OP_ADD \<and> drop_bit 12 (0x1042 :: u16) = OP_ADD \<and>
   bit (0x107D :: u16) 5 \<and> \<not> bit (0x1042 :: u16) 5 \<and>
   reg test_state (0x1042 AND 7) = sign_extend (0x107D AND 0x1F) 5 \<and>
   execute test_env 0x107D test_state = execute test_env 0x1042 test_state \<and>
   (case execute test_env 0x107D test_state of
      Running s' \<Rightarrow> reg s' 0 = 4 \<and> reg s' R_COND = FL_POS | _ \<Rightarrow> False)"
  using immediate_as_register [of "0x107D" "0x1042" test_state test_env]
  by (simp add: eval_simps test_state_def)

text \<open>
  C4. \<open>LDI\<close> with the 9-bit offset \<open>d\<close>: let \<open>A\<close> be the incremented PC plus
  \<open>sign_extend (d, 9)\<close>. The destination register receives the value read at the address
  that the read at \<open>A\<close> returns, and the flags are set from that value; where the two
  reads are plain memory reads, the value is \<open>memory[memory[A]]\<close>. Nothing else changes
  but what the reads themselves do to memory and devices.
\<close>

theorem LDI_double_indirection:
  assumes "fetch env s = (instr, s1)"
      and "drop_bit 12 instr = OP_LDI"
      and "A = reg s R_PC + 1 + sign_extend (instr AND 0x1FF) 9"
      and "mem_read env A (memory s1, dev s1) = (a, m1, d1)"
      and "mem_read env a (m1, d1) = (v, m2, d2)"
  shows "\<exists>s'. step env s = Running s' \<and>
           reg s' (drop_bit 9 instr AND 7) = v \<and>
           reg s' R_COND = (if sint v = 0 then FL_ZRO else if sint v < 0 then FL_NEG else FL_POS) \<and>
           memory s' = m2 \<and> dev s' = d2 \<and>
           reg s' R_PC = reg s R_PC + 1 \<and>
           (\<forall>r. r \<noteq> drop_bit 9 instr AND 7 \<and> r \<noteq> R_COND \<and> r \<noteq> R_PC \<longrightarrow> reg s' r = reg s r) \<and>
           (mem_read env A (memory s1, dev s1) = (memory s1 A, memory s1, dev s1) \<longrightarrow>
            mem_read env (memory s1 A) (memory s1, dev s1) =
              (memory s1 (memory s1 A), memory s1, dev s1) \<longrightarrow>
            reg s' (drop_bit 9 instr AND 7) = memory s1 (memory s1 A))"
proof -
  let ?dr = "drop_bit 9 instr AND 7"
  have r: "reg s1 = (reg s)(R_PC := reg s R_PC + 1)"
    using assms(1) by (rule fetch_props)
  have n: "?dr \<noteq> R_COND" "?dr \<noteq> R_PC" "R_PC \<noteq> R_COND"
    by (simp_all add: field3_not_special) (simp add: reg_names)
  have A: "reg s1 R_PC + sign_extend (instr AND 0x1FF) 9 = A"
    by (simp add: r assms(3))
  have 1: "mem_read env (reg s1 R_PC + sign_extend (instr AND 0x1FF) 9) (memory s1, dev s1) = (a, m1, d1)"
    using assms(4) by (simp only: A)
  have "step env s = Running (case_LDI env instr s1)"
    using assms(1,2) by (simp add: step_def execute_LDI)
  then have st: "step env s = Running (update_flags ?dr
       (s1\<lparr>memory := m2, reg := (reg s1)(?dr := v), dev := d2\<rparr>))"
    by (simp only: case_LDI_eq [OF 1 assms(5)])
  show ?thesis
    using n assms(4,5) by (auto simp add: st update_flags_frame update_flags_cond r)
qed

theorem LDI_double_indirection_witness:
  "drop_bit 12 (fst (fetch test_env ldi_state)) = OP_LDI \<and>
   (\<exists>s'. step test_env ldi_state = Running s' \<and> reg s' 2 = 0x8001 \<and>
      reg s' 2 = memory ldi_state (memory ldi_state 0x3003) \<and> reg s' R_COND = FL_NEG)"
proof -
  let ?s1 = "snd (fetch test_env ldi_state)"
  have f: "fetch test_env ldi_state = (fst (fetch test_env ldi_state), ?s1)" by simp
  have i: "fst (fetch test_env ldi_state) = 0xA402"
    by (simp add: eval_simps ldi_state_def)
  have m: "memory ?s1 = memory ldi_state"
    by (simp add: eval_simps ldi_state_def)
  have o: "drop_bit 12 (fst (fetch test_env ldi_state)) = OP_LDI"
    by (simp add: i op_names)
  have A: "(0x3003 :: u16) = reg ldi_state R_PC + 1 + sign_extend (fst (fetch test_env ldi_state) AND 0x1FF) 9"
    by (simp add: i) (simp add: ldi_state_def sign_extend_def reg_names)
  have 1: "mem_read test_env 0x3003 (memory ?s1, dev ?s1) = (0x4000, memory ?s1, ())"
    by (simp add: m) (simp add: test_env_def plain_read_def ldi_state_def)
  have 2: "mem_read test_env 0x4000 (memory ?s1, ()) = (0x8001, memory ?s1, ())"
    by (simp add: m) (simp add: test_env_def plain_read_def ldi_state_def)
  show ?thesis
    using LDI_double_indirection [OF f o A 1 2] o
    by (simp add: i) (auto simp add: ldi_state_def reg_names flag_names)
qed

text \<open>
  C5. In every state of the running loop, fetching an instruction whose opcode is
  \<open>OP_RTI\<close> (8) or \<open>OP_RES\<close> (13) aborts: the machine is left as the fetch left it
  (only the PC incremented, besides what the read did), and whatever fuel remains, the
  loop ends there with this one fetch and the call of \<open>abort\<close>.
\<close>

theorem reserved_opcode_aborts:
  assumes "fetch env s = (instr, s1)"
      and "drop_bit 12 instr = OP_RTI \<or> drop_bit 12 instr = OP_RES"
  shows "step env s = Aborted s1 \<and>
         reg s1 = (reg s)(R_PC := reg s R_PC + 1) \<and>
         (\<forall>n. loop env (Suc n) s = ([Fetch (reg s R_PC), Abort], Aborted s1))"
proof -
  have st: "step env s = Aborted s1"
    using assms by (simp add: step_def execute_reserved)
  then show ?thesis
    using fetch_props(1) [OF assms(1)] by simp
qed

theorem reserved_opcode_aborts_witness:
  "drop_bit 12 (fst (fetch test_env res_state)) = OP_RES \<and>
   (\<exists>s1. loop test_env (Suc 4) res_state = ([Fetch 0x3000, Abort], Aborted s1) \<and>
      reg s1 3 = 5 \<and> reg s1 R_PC = 0x3001 \<and> memory s1 = memory res_state)"
proof -
  let ?s1 = "snd (fetch test_env res_state)"
  have f: "fetch test_env res_state = (fst (fetch test_env res_state), ?s1)" by simp
  have i: "fst (fetch test_env res_state) = 0xD000"
    by (simp add: eval_simps res_state_def)
  have m: "memory ?s1 = memory res_state"
    by (simp add: eval_simps res_state_def)
  have o: "drop_bit 12 (fst (fetch test_env res_state)) = OP_RES"
    by (simp add: i op_names)
  have p: "reg res_state R_PC = 0x3000" by (simp add: res_state_def)
  note T = reserved_opcode_aborts [OF f disjI2 [OF o]]
  have L: "loop test_env (Suc 4) res_state = ([Fetch 0x3000, Abort], Aborted ?s1)"
    using T p by metis
  have R: "reg ?s1 = (reg res_state)(R_PC := reg res_state R_PC + 1)"
    using T by blast
  have "reg ?s1 3 = 5" "reg ?s1 R_PC = 0x3001"
    by (simp_all add: R) (simp_all add: res_state_def reg_names)
  with L m o show ?thesis by blast
qed

text \<open>
  C10. An \<open>ADD\<close> or \<open>AND\<close>, in either mode, changes the destination register and the
  condition register only: memory and devices stay as the fetch left them, the PC is
  the fetched PC plus one, and every other register keeps its value. The destination
  receives the sum (or conjunction) of the source values as they were before the
  instruction, also when the destination is one of the sources.
\<close>

theorem add_and_frame:
  assumes "fetch env s = (instr, s1)"
      and "drop_bit 12 instr = OP_ADD \<or> drop_bit 12 instr = OP_AND"
  shows "\<exists>s'. step env s = Running s' \<and>
           memory s' = memory s1 \<and> dev s' = dev s1 \<and>
           reg s' R_PC = reg s R_PC + 1 \<and>
           (\<forall>r. r \<noteq> drop_bit 9 instr AND 7 \<and> r \<noteq> R_COND \<and> r \<noteq> R_PC \<longrightarrow> reg s' r = reg s r) \<and>
           reg s' (drop_bit 9 instr AND 7) =
             (let a = reg s (drop_bit 6 instr AND 7);
                  b = (if bit instr 5 then sign_extend (instr AND 0x1F) 5 else reg s (instr AND 7))
              in if drop_bit 12 instr = OP_ADD then a + b else a AND b)"
proof -
  let ?dr = "drop_bit 9 instr AND 7"
  have r: "reg s1 = (reg s)(R_PC := reg s R_PC + 1)"
    using assms(1) by (rule fetch_props)
  have n: "?dr \<noteq> R_COND" "?dr \<noteq> R_PC" "drop_bit 6 instr AND 7 \<noteq> R_PC" "instr AND 7 \<noteq> R_PC"
    "R_PC \<noteq> R_COND"
    by (simp_all add: field3_not_special) (simp add: reg_names)
  from assms(2) show ?thesis
  proof
    assume op: "drop_bit 12 instr = OP_ADD"
    have "step env s = Running (case_ADD instr s1)"
      using assms(1) op by (simp add: step_def execute_ADD)
    then show ?thesis
      using n op by (simp add: case_ADD_eq update_flags_frame r Let_def)
  next
    assume op: "drop_bit 12 instr = OP_AND"
    have "step env s = Running (case_AND instr s1)"
      using assms(1) op by (simp add: step_def execute_AND)
    then show ?thesis
      using n op by (simp add: case_AND_eq update_flags_frame r Let_def op_names)
  qed
qed

theorem add_and_frame_witness:
  "drop_bit 12 (fst (fetch test_env alias_state)) = OP_ADD \<and>
   (\<exists>s'. step test_env alias_state = Running s' \<and> reg s' 1 = 14 \<and> reg s' R_PC = 0x3001 \<and>
      reg s' 2 = 0 \<and> memory s' = memory alias_state)"
proof -
  have f: "fetch test_env alias_state =
      (fst (fetch test_env alias_state), snd (fetch test_env alias_state))" by simp
  have i: "fst (fetch test_env alias_state) = 0x1241"
    by (simp add: eval_simps alias_state_def)
  have m: "memory (snd (fetch test_env alias_state)) = memory alias_state"
    by (simp add: eval_simps alias_state_def)
  have o: "drop_bit 12 (fst (fetch test_env alias_state)) = OP_ADD"
    by (simp add: i op_names)
  show ?thesis
    using add_and_frame [OF f disjI1 [OF o]] o
    by (simp add: i m) (auto simp add: alias_state_def reg_names op_names)
qed

text \<open>
  C6. When \<open>main\<close> reaches the loop, before the first fetch, the PC is \<open>0x3000\<close>, the
  condition register is \<open>FL_ZRO\<close>, the registers R0 to R7 are 0, and every memory cell
  that no loaded image stores to is 0.
\<close>

theorem initial_state:
  assumes "boot env argv d = (es, Inr s)"
  shows "reg s R_PC = 0x3000 \<and> reg s R_COND = FL_ZRO \<and>
         (\<forall>r. r \<le> R_R7 \<longrightarrow> reg s r = 0) \<and>
         (\<forall>a. a \<notin> written_by_loader env argv \<longrightarrow> memory s a = 0) \<and>
         (\<forall>pc. Fetch pc \<notin> set es)"
proof -
  from assms have argc: "\<not> length argv < 2"
    by (auto simp add: boot_def Let_def)
  obtain ls r where l: "load_images env (drop 1 argv) (\<lambda>a. 0) = (ls, r)"
    by (cases "load_images env (drop 1 argv) (\<lambda>a. 0)")
  with assms argc obtain m where r: "r = Some m"
    by (cases r) (auto simp add: boot_def Let_def static_storage_def)
  have s: "s = \<lparr>memory = m, reg = (\<lambda>r. 0)(R_COND := FL_ZRO, R_PC := PC_START), dev = d\<rparr>"
    and es: "es = ls @ [Signal_SIGINT, Disable_input_buffering]"
    using assms argc l r by (auto simp add: boot_def Let_def static_storage_def)
  have regs: "reg s R_PC = 0x3000" "reg s R_COND = FL_ZRO" "\<forall>r. r \<le> R_R7 \<longrightarrow> reg s r = 0"
    by (auto simp add: s PC_START_def reg_names)
  have mem: "memory s a = 0" if "a \<notin> written_by_loader env argv" for a
  proof -
    have "\<forall>p\<in>set (drop 1 argv). \<forall>stores. read_image env p = Some stores \<longrightarrow> a \<notin> fst ` set stores"
      using that by (auto simp add: written_by_loader_def split: option.splits)
    from load_images_memory [OF l [unfolded r] this] show ?thesis by (simp add: s)
  qed
  have "Fetch pc \<notin> set es" for pc
    using load_images_no_fetch(1) [OF l, of pc] by (simp add: es)
  with regs mem show ?thesis by blast
qed

theorem initial_state_witness:
  "\<exists>es s. boot test_env [''lc3'', ''ldi.obj''] () = (es, Inr s) \<and>
      0x5000 \<notin> written_by_loader test_env [''lc3'', ''ldi.obj''] \<and>
      memory s 0x5000 = 0 \<and> memory s 0x3003 = 0x4000 \<and>
      reg s R_PC = 0x3000 \<and> reg s R_COND = FL_ZRO \<and> reg s 3 = 0"
proof -
  let ?s = "\<lparr>memory = store_all [(0x3000, 0xA402), (0x3003, 0x4000), (0x4000, 0x8001)] (\<lambda>a. 0),
             reg = (\<lambda>r. 0)(R_COND := FL_ZRO, R_PC := PC_START), dev = ()\<rparr>"
  let ?es = "[Read_image ''ldi.obj'', Signal_SIGINT, Disable_input_buffering]"
  have b: "boot test_env [''lc3'', ''ldi.obj''] () = (?es, Inr ?s)"
    by (simp add: boot_def static_storage_def test_env_def test_images_def)
  have w: "0x5000 \<notin> written_by_loader test_env [''lc3'', ''ldi.obj'']"
    by (simp add: written_by_loader_def test_env_def test_images_def)
  have r: "(3::u16) \<le> R_R7" by (simp add: reg_names)
  have m: "memory ?s 0x3003 = 0x4000" by (simp add: store_all_def)
  show ?thesis
    using initial_state [OF b] w r m b by blast
qed

text \<open>
  C7. The claim asks that \<open>restore_input_buffering\<close> runs on every way out of the loop.
  The program run on an image whose first word is the reserved opcode \<open>0xD000\<close>: input
  buffering is disabled, the instruction is fetched, \<open>abort\<close> is called, and the process
  is gone without the call of \<open>restore_input_buffering\<close>, which only follows a loop that
  ends by itself (line 195).
\<close>

theorem abort_without_restore:
  "main test_env (Suc (Suc (Suc 0))) [''lc3'', ''res.obj''] () =
     (Killed_by_abort,
      [Read_image ''res.obj'', Signal_SIGINT, Disable_input_buffering, Fetch 0x3000, Abort]) \<and>
   Restore_input_buffering \<notin>
     set (snd (main test_env (Suc (Suc (Suc 0))) [''lc3'', ''res.obj''] ()))"
  by (simp add: main_simps eval_simps)

text \<open>
  C8. Without an image argument the process exits with code 2, and when an image fails
  to load it exits with code 1, in both cases before input buffering is disabled and
  without a single fetch. When the loop ends by itself the process ends with code 0
  after restoring input buffering. The three codes tell the three cases apart: a code
  of 2, 1 or 0 occurs in its own case only.
\<close>

theorem exit_codes:
  "(length argv < 2 \<longrightarrow>
      main env fuel argv d = (Exited 2, [Printf (''lc3 [image-file1] ...'' @ [CHR 0x0A]), Exit 2])) \<and>
   (2 \<le> length argv \<and> (\<exists>p\<in>set (drop 1 argv). read_image env p = None) \<longrightarrow>
      fst (main env fuel argv d) = Exited 1 \<and>
      (\<forall>pc. Fetch pc \<notin> set (snd (main env fuel argv d))) \<and>
      Disable_input_buffering \<notin> set (snd (main env fuel argv d))) \<and>
   (\<forall>es s ls s'. boot env argv d = (es, Inr s) \<and> loop env fuel s = (ls, Halted s') \<longrightarrow>
      main env fuel argv d = (Exited 0, es @ ls @ [Restore_input_buffering])) \<and>
   (\<forall>c. fst (main env fuel argv d) = Exited c \<longrightarrow>
      c = 2 \<and> length argv < 2 \<or>
      c = 1 \<and> 2 \<le> length argv \<and> (\<exists>p\<in>set (drop 1 argv). read_image env p = None) \<or>
      c = 0 \<and> (\<exists>es s ls s'. boot env argv d = (es, Inr s) \<and> loop env fuel s = (ls, Halted s')))"
proof (cases "length argv < 2")
  case True
  then show ?thesis by (simp add: main_def boot_cases(1))
next
  case False
  obtain es r where l: "load_images env (drop 1 argv) (\<lambda>a. 0) = (es, r)"
    by (cases "load_images env (drop 1 argv) (\<lambda>a. 0)")
  show ?thesis
  proof (cases r)
    case None
    have f: "\<exists>p\<in>set (drop 1 argv). read_image env p = None"
      using load_images_fails_iff [OF l] None by simp
    have m: "main env fuel argv d = (Exited 1, es)"
      using False l None by (simp add: main_def boot_cases(2))
    show ?thesis
      using False f load_images_no_fetch [OF l] by (simp add: m boot_cases(2) [OF False l [unfolded None]])
  next
    case (Some m)
    have f: "\<not> (\<exists>p\<in>set (drop 1 argv). read_image env p = None)"
      using load_images_fails_iff [OF l] Some by simp
    note b = boot_cases(3) [OF False l [unfolded Some], of d]
    obtain ls out where lp: "loop env fuel
        \<lparr>memory = m, reg = (\<lambda>r. 0)(R_COND := FL_ZRO, R_PC := PC_START), dev = d\<rparr> = (ls, out)"
      by (cases "loop env fuel
        \<lparr>memory = m, reg = (\<lambda>r. 0)(R_COND := FL_ZRO, R_PC := PC_START), dev = d\<rparr>")
    show ?thesis
      using False f by (cases out) (simp_all add: main_def b lp)
  qed
qed

theorem exit_codes_witness:
  "length [''lc3''] < 2 \<and>
   fst (main test_env (Suc (Suc (Suc 0))) [''lc3''] ()) = Exited 2 \<and>
   read_image test_env ''missing.obj'' = None \<and>
   fst (main test_env (Suc (Suc (Suc 0))) [''lc3'', ''add.obj'', ''missing.obj''] ()) = Exited 1 \<and>
   Disable_input_buffering \<notin> set (snd (main test_env (Suc (Suc (Suc 0))) [''lc3'', ''add.obj'', ''missing.obj''] ())) \<and>
   main test_env (Suc (Suc (Suc 0))) [''lc3'', ''add.obj''] () =
     (Exited 0, [Read_image ''add.obj'', Signal_SIGINT, Disable_input_buffering,
                 Fetch 0x3000, Fetch 0x3001, Restore_input_buffering])"
proof -
  have 1: "length [''lc3''] < 2" by simp
  have 2: "read_image test_env ''missing.obj'' = None"
    by (simp add: test_env_def test_images_def)
  have 3: "2 \<le> length [''lc3'', ''add.obj'', ''missing.obj''] \<and>
      (\<exists>p\<in>set (drop 1 [''lc3'', ''add.obj'', ''missing.obj'']). read_image test_env p = None)"
    using 2 by simp
  have 4: "main test_env (Suc (Suc (Suc 0))) [''lc3'', ''add.obj''] () =
     (Exited 0, [Read_image ''add.obj'', Signal_SIGINT, Disable_input_buffering,
                 Fetch 0x3000, Fetch 0x3001, Restore_input_buffering])"
    by (simp add: main_simps eval_simps)
  show ?thesis
    using exit_codes [of "[''lc3'']" test_env "Suc (Suc (Suc 0))" "()"] 
      exit_codes [of "[''lc3'', ''add.obj'', ''missing.obj'']" test_env "Suc (Suc (Suc 0))" "()"]
      exit_codes [of "[''lc3'', ''add.obj'']" test_env "Suc (Suc (Suc 0))" "()"]
      1 2 3 4
    by simp
qed

end
